theory Spec2Isabelle
  imports Main
begin

section \<open>Game of Life on a toroidal grid: the model of game\_of\_life.py\<close>

text \<open>
  The class \<open>GameOfLife\<close> keeps its whole session in instance fields; the model keeps
  them in a record and every method takes the record and returns the updated one.
  A Python exception is a value of \<open>error\<close>. A method that mutates the object before
  it raises returns the error together with the object as it is at that moment.
\<close>

subsection \<open>Errors\<close>

datatype error =
  KeyError | IndexError | ValueError | ZeroDivisionError | OverflowError | OSError | CursesError

subsection \<open>The numpy array of the board\<close>

text \<open>
  A two-dimensional integer array: its shape and its rows. The shape is kept beside
  the rows because an array of shape \<open>(0, n)\<close> has no row that remembers \<open>n\<close>.
  The cells are numpy integers of 64 bits (\<open>dtype=int\<close>). A cell is modelled as an
  integer in the signed range of 64 bits; arithmetic on two such numpy scalars wraps
  around, and storing a Python integer outside the range raises OverflowError.
\<close>

definition in_int64 :: "int \<Rightarrow> bool" where
  "in_int64 v \<longleftrightarrow> - (2 ^ 63) \<le> v \<and> v < 2 ^ 63"

definition int64 :: "int \<Rightarrow> int" where
  "int64 v = (v + 2 ^ 63) mod 2 ^ 64 - 2 ^ 63"

definition int64_rows :: "int list list \<Rightarrow> bool" where
  "int64_rows rows \<longleftrightarrow> list_all (list_all in_int64) rows"

record ndarray =
  nrows :: nat
  ncols :: nat
  cells :: "int list list"

definition wf_array :: "ndarray \<Rightarrow> bool" where
  "wf_array a \<longleftrightarrow>
     length (cells a) = nrows a \<and> list_all (\<lambda>row. length row = ncols a) (cells a)"

definition binary_rows :: "int list list \<Rightarrow> bool" where
  "binary_rows rows \<longleftrightarrow> list_all (list_all (\<lambda>v. v = 0 \<or> v = 1)) rows"

definition binary_array :: "ndarray \<Rightarrow> bool" where
  "binary_array a \<longleftrightarrow> binary_rows (cells a)"

definition int64_array :: "ndarray \<Rightarrow> bool" where
  "int64_array a \<longleftrightarrow> int64_rows (cells a)"

text \<open>\<open>np.zeros(shape)\<close> for a shape that an existing array has.\<close>

definition zeros_of_shape :: "nat \<Rightarrow> nat \<Rightarrow> ndarray" where
  "zeros_of_shape r c = \<lparr>nrows = r, ncols = c, cells = replicate r (replicate c 0)\<rparr>"

text \<open>\<open>np.zeros((rows, cols), dtype=int)\<close>: a negative dimension raises ValueError.\<close>

definition np_zeros :: "int \<Rightarrow> int \<Rightarrow> error + ndarray" where
  "np_zeros r c =
     (if r < 0 \<or> c < 0 then Inl ValueError else Inr (zeros_of_shape (nat r) (nat c)))"

text \<open>
  One index of \<open>a[i, j]\<close> on an axis of length \<open>n\<close>: numpy counts a negative index
  from the end and raises IndexError outside \<open>-n \<le> i < n\<close>.
\<close>

definition np_index :: "nat \<Rightarrow> int \<Rightarrow> error + nat" where
  "np_index n i =
     (if 0 \<le> i \<and> i < int n then Inr (nat i)
      else if - int n \<le> i \<and> i < 0 then Inr (nat (i + int n))
      else Inl IndexError)"

definition np_get :: "ndarray \<Rightarrow> int \<Rightarrow> int \<Rightarrow> error + int" where
  "np_get a i j =
     (case np_index (nrows a) i of
        Inl e \<Rightarrow> Inl e
      | Inr i' \<Rightarrow>
          (case np_index (ncols a) j of
             Inl e \<Rightarrow> Inl e
           | Inr j' \<Rightarrow> Inr (cells a ! i' ! j')))"

text \<open>
  \<open>a[r, c] = v\<close> for an index pair that \<open>np.ndindex(a.shape)\<close> produced, which is
  always inside the array.
\<close>

definition np_set :: "ndarray \<Rightarrow> nat \<Rightarrow> nat \<Rightarrow> int \<Rightarrow> ndarray" where
  "np_set a r c v = a\<lparr>cells := (cells a)[r := (cells a ! r)[c := v]]\<rparr>"

text \<open>\<open>np.ndindex(shape)\<close>: every index pair, the last axis running fastest.\<close>

definition ndindex :: "nat \<Rightarrow> nat \<Rightarrow> (nat \<times> nat) list" where
  "ndindex r c = List.product [0..<r] [0..<c]"

text \<open>
  \<open>a[0:m, 0:n] = v\<close> for a nested list \<open>v\<close>. numpy first turns \<open>v\<close> into an array
  of the target's type: finding its shape fails with ValueError when the rows differ in
  length, and filling it fails with OverflowError when a number is outside the range of
  64 bits. The slices are clipped to the array; the value's shape must then broadcast to
  the shape of the clipped target: on each axis the two extents are equal or the
  value's extent is 1. Otherwise numpy raises ValueError (could not broadcast input
  array).
\<close>

definition np_assign_slice ::
  "ndarray \<Rightarrow> nat \<Rightarrow> nat \<Rightarrow> int list list \<Rightarrow> error + ndarray" where
  "np_assign_slice a m n v =
     (let vr = length v;
          vc = (case v of [] \<Rightarrow> 0 | row0 # _ \<Rightarrow> length row0);
          tr = min m (nrows a);
          tc = min n (ncols a)
      in if \<not> list_all (\<lambda>row. length row = vc) v then Inl ValueError
         else if \<not> int64_rows v then Inl OverflowError
         else if \<not> ((vr = tr \<or> vr = 1) \<and> (vc = tc \<or> vc = 1)) then Inl ValueError
         else Inr (a\<lparr>cells :=
                map (\<lambda>i. if i < tr
                          then map (\<lambda>j. if j < tc
                                         then v ! (if vr = 1 then 0 else i)
                                                ! (if vc = 1 then 0 else j)
                                         else cells a ! i ! j) [0..<ncols a]
                          else cells a ! i) [0..<nrows a]\<rparr>))"

text \<open>
  \<open>np.random.randint(0, 2, (rows, cols))\<close>: the entropy source is a stream of bits;
  each cell takes one bit, so every cell is 0 or 1, and the stream moves on.
\<close>

definition np_randint :: "(nat \<Rightarrow> bool) \<Rightarrow> nat \<Rightarrow> nat \<Rightarrow> ndarray \<times> (nat \<Rightarrow> bool)" where
  "np_randint bits r c =
     (\<lparr>nrows = r, ncols = c,
       cells = map (\<lambda>i. map (\<lambda>j. if bits (i * c + j) then 1 else 0) [0..<c]) [0..<r]\<rparr>,
      \<lambda>k. bits (k + r * c))"

subsection \<open>The session object\<close>

type_synonym pattern = "int list list"
type_synonym config = "string \<rightharpoonup> pattern"

text \<open>
  The file config.json: absent (or not to be opened), present but not JSON, or holding
  a dictionary from names to patterns.
\<close>

datatype config_store = NoFile | BadJson | Json config

text \<open>
  The fields of \<open>GameOfLife\<close>, and beside them the things of the world the methods
  touch: the file config.json, whether it can be opened for writing, the entropy of
  numpy's generator, and the boards that \<open>draw_board\<close> has put on the screen, in
  order.
\<close>

record game =
  SCREEN_WIDTH :: int
  SCREEN_HEIGHT :: int
  ROWS :: int
  COLS :: int
  board :: ndarray
  CONFIG :: config
  config_file :: config_store
  file_writable :: bool
  entropy :: "nat \<Rightarrow> bool"
  drawn :: "ndarray list"

definition LEFT_MARGIN :: int where "LEFT_MARGIN = 2"
definition RIGHT_MARGIN :: int where "RIGHT_MARGIN = 13"
definition TOP_MARGIN :: int where "TOP_MARGIN = 3"
definition BOTTOM_MARGIN :: int where "BOTTOM_MARGIN = 2"

text \<open>The key codes: \<open>ord\<close> of the characters, and \<open>curses.KEY_ENTER\<close>.\<close>

definition KEY_ENTER :: int where "KEY_ENTER = 343"

definition OPTIONS :: "int \<rightharpoonup> string" where
  "OPTIONS =
     [48 \<mapsto> ''Block'', 49 \<mapsto> ''Beehive'', 50 \<mapsto> ''Loaf'', 51 \<mapsto> ''Boat'',
      52 \<mapsto> ''Tub'', 53 \<mapsto> ''Blinker'', 54 \<mapsto> ''Toad'', 55 \<mapsto> ''Beacon'',
      56 \<mapsto> ''Glider'', 57 \<mapsto> ''Saved'', 114 \<mapsto> ''Random'']"

text \<open>\<open>__init__\<close>: the object before \<open>set_screen\<close>, in a given world.\<close>

definition init :: "config_store \<Rightarrow> bool \<Rightarrow> (nat \<Rightarrow> bool) \<Rightarrow> game" where
  "init file writable bits =
     \<lparr>SCREEN_WIDTH = 0, SCREEN_HEIGHT = 0, ROWS = 0, COLS = 0,
      board = zeros_of_shape 10 10, CONFIG = Map.empty,
      config_file = file, file_writable = writable, entropy = bits, drawn = []\<rparr>"

definition set_screen :: "int \<Rightarrow> int \<Rightarrow> game \<Rightarrow> game" where
  "set_screen h w s =
     s\<lparr>SCREEN_HEIGHT := h, SCREEN_WIDTH := w,
       ROWS := h - TOP_MARGIN - BOTTOM_MARGIN - 1,
       COLS := w - LEFT_MARGIN - RIGHT_MARGIN - 1\<rparr>"

text \<open>
  \<open>load_config\<close>: \<open>open\<close> raises FileNotFoundError, an OSError, and \<open>json.load\<close>
  raises JSONDecodeError, a ValueError.
\<close>

definition load_config :: "game \<Rightarrow> error + game" where
  "load_config s =
     (case config_file s of
        NoFile \<Rightarrow> Inl OSError
      | BadJson \<Rightarrow> Inl ValueError
      | Json cfg \<Rightarrow> Inr (s\<lparr>CONFIG := cfg\<rparr>))"

text \<open>
  \<open>save_config\<close>: the entry is put into \<open>CONFIG\<close> first, then the file is opened for
  writing and the whole of \<open>CONFIG\<close> is dumped into it.
\<close>

definition save_config :: "game \<Rightarrow> error option \<times> game" where
  "save_config s =
     (let s1 = s\<lparr>CONFIG := (CONFIG s)(''Saved'' \<mapsto> cells (board s))\<rparr>
      in if file_writable s1 then (None, s1\<lparr>config_file := Json (CONFIG s1)\<rparr>)
         else (Some OSError, s1))"

text \<open>
  \<open>populate_board\<close>. The assignment
  \<open>self.board[0 : len(P), 0 : len(P[0])] = P\<close> with \<open>P = self.CONFIG[option]\<close>
  evaluates \<open>P\<close> first (KeyError), then the slice bounds (IndexError for \<open>P[0]\<close> of
  an empty list), then stores (ValueError from numpy). The board has been replaced by
  zeros before any of them.
\<close>

definition populate_board :: "string \<Rightarrow> game \<Rightarrow> error option \<times> game" where
  "populate_board option s =
     (case load_config s of
        Inl e \<Rightarrow> (Some e, s)
      | Inr s1 \<Rightarrow>
          (case np_zeros (ROWS s1) (COLS s1) of
             Inl e \<Rightarrow> (Some e, s1)
           | Inr z \<Rightarrow>
               (let s2 = s1\<lparr>board := z\<rparr>
                in if option = ''Random''
                   then (let (b, bits) = np_randint (entropy s2) (nat (ROWS s2)) (nat (COLS s2))
                         in (None, s2\<lparr>board := b, entropy := bits\<rparr>))
                   else (case CONFIG s2 option of
                           None \<Rightarrow> (Some KeyError, s2)
                         | Some p \<Rightarrow>
                             (case p of
                                [] \<Rightarrow> (Some IndexError, s2)
                              | row0 # _ \<Rightarrow>
                                  (case np_assign_slice (board s2) (length p) (length row0) p of
                                     Inl e \<Rightarrow> (Some e, s2)
                                   | Inr b \<Rightarrow> (None, s2\<lparr>board := b\<rparr>)))))))"

subsection \<open>Counting neighbours\<close>

text \<open>A \<open>for\<close> loop whose body may raise: the first error ends it.\<close>

fun for_each :: "('a \<Rightarrow> 'st \<Rightarrow> error + 'st) \<Rightarrow> 'a list \<Rightarrow> 'st \<Rightarrow> error + 'st" where
  "for_each body [] st = Inr st"
| "for_each body (a # as) st =
     (case body a st of Inl e \<Rightarrow> Inl e | Inr st' \<Rightarrow> for_each body as st')"

text \<open>\<open>range(lo, hi)\<close> on integers.\<close>

definition py_range :: "int \<Rightarrow> int \<Rightarrow> int list" where
  "py_range lo hi = [lo..hi - 1]"

text \<open>\<open>(v + n) % n\<close>: Python's remainder has the sign of the divisor, as \<open>mod\<close> has.\<close>

definition wrap :: "int \<Rightarrow> int \<Rightarrow> error + int" where
  "wrap v n = (if n = 0 then Inl ZeroDivisionError else Inr ((v + n) mod n))"

text \<open>
  The body of the inner loop. It assigns to \<open>x\<close>, the variable of the outer loop, so
  the state of the inner loop is \<open>x\<close> and the running sum. The sum starts as the
  Python integer 0 and is a numpy scalar of 64 bits from the first addition on, so
  every addition, and the subtraction at the end, wraps around.
\<close>

definition inner_body :: "game \<Rightarrow> int \<Rightarrow> int \<times> int \<Rightarrow> error + int \<times> int" where
  "inner_body s y0 st =
     (case st of (x, alive) \<Rightarrow>
        (case wrap x (ROWS s) of
           Inl e \<Rightarrow> Inl e
         | Inr x' \<Rightarrow>
             (case wrap y0 (COLS s) of
                Inl e \<Rightarrow> Inl e
              | Inr y' \<Rightarrow>
                  (case np_get (board s) x' y' of
                     Inl e \<Rightarrow> Inl e
                   | Inr v \<Rightarrow> Inr (x', int64 (alive + v))))))"

definition outer_body :: "game \<Rightarrow> int \<Rightarrow> int \<Rightarrow> int \<Rightarrow> error + int" where
  "outer_body s c x0 alive =
     (case for_each (inner_body s) (py_range (c - 1) (c + 2)) (x0, alive) of
        Inl e \<Rightarrow> Inl e
      | Inr st \<Rightarrow> Inr (snd st))"

definition count_alive_neighbours :: "game \<Rightarrow> int \<Rightarrow> int \<Rightarrow> error + int" where
  "count_alive_neighbours s r c =
     (case for_each (outer_body s c) (py_range (r - 1) (r + 2)) 0 of
        Inl e \<Rightarrow> Inl e
      | Inr alive \<Rightarrow>
          (case np_get (board s) r c of
             Inl e \<Rightarrow> Inl e
           | Inr v \<Rightarrow> Inr (int64 (alive - v))))"

subsection \<open>The next generation\<close>

text \<open>
  The body of the loop of \<open>update_board\<close>: it reads \<open>self.board\<close> and writes
  \<open>new_board\<close>, which is the state of the loop.
\<close>

definition update_body :: "game \<Rightarrow> nat \<times> nat \<Rightarrow> ndarray \<Rightarrow> error + ndarray" where
  "update_body s rc new_board =
     (case rc of (r, c) \<Rightarrow>
        (case count_alive_neighbours s (int r) (int c) of
           Inl e \<Rightarrow> Inl e
         | Inr alive \<Rightarrow>
             (case np_get (board s) (int r) (int c) of
                Inl e \<Rightarrow> Inl e
              | Inr v \<Rightarrow>
                  if v = 1
                  then (if alive \<le> 3 \<and> alive \<ge> 2 then Inr (np_set new_board r c 1)
                        else Inr new_board)
                  else if v = 0
                  then (if alive = 3 then Inr (np_set new_board r c 1) else Inr new_board)
                  else Inr new_board)))"

definition update_board :: "game \<Rightarrow> error option \<times> game" where
  "update_board s =
     (case for_each (update_body s) (ndindex (nrows (board s)) (ncols (board s)))
             (zeros_of_shape (nrows (board s)) (ncols (board s))) of
        Inl e \<Rightarrow> (Some e, s)
      | Inr new_board \<Rightarrow> (None, s\<lparr>board := new_board\<rparr>))"

subsection \<open>The controller\<close>

text \<open>
  \<open>draw_board\<close> puts the board on the screen; the model records which board was drawn.
  The other drawing methods (\<open>print_title\<close>, \<open>print_box\<close>, \<open>print_menu\<close>) write
  nothing the session reads back; what the model keeps of them is that \<open>addstr\<close>
  raises \<open>curses.error\<close> outside the window: \<open>print_side_menu\<close> writes on line 16,
  so the terminal needs 17 lines, and \<open>print_down_menu\<close> writes at column
  \<open>COLS // 2 - 6\<close>, which is negative on fewer than 28 columns.
\<close>

definition menu_fits :: "int \<Rightarrow> int \<Rightarrow> bool" where
  "menu_fits h w \<longleftrightarrow> 17 \<le> h \<and> 28 \<le> w"

definition draw_board :: "game \<Rightarrow> game" where
  "draw_board s = s\<lparr>drawn := drawn s @ [board s]\<rparr>"

text \<open>
  How a session stands when the input read so far is used up: blocked in
  \<open>getch\<close>, left by the quit key, or ended by an exception.
\<close>

datatype session = Awaiting game | Terminated game | Crashed error game

definition digit_keys :: "int list" where
  "digit_keys = map (\<lambda>x. 48 + int x) [0..<10]"

fun game_loop :: "int list \<Rightarrow> game \<Rightarrow> session" where
  "game_loop [] s = Awaiting s"
| "game_loop (key # keys) s =
     (if key = KEY_ENTER \<or> key \<in> set [10, 13]
      then (case update_board s of
              (Some e, s') \<Rightarrow> Crashed e s'
            | (None, s') \<Rightarrow> game_loop keys (draw_board s'))
      else if key = 115 \<or> key = 83
      then (case save_config s of
              (Some e, s') \<Rightarrow> Crashed e s'
            | (None, s') \<Rightarrow> game_loop keys s')
      else if key \<in> set digit_keys \<or> key = 114
      then (case OPTIONS key of
              None \<Rightarrow> Crashed KeyError s
            | Some option \<Rightarrow>
                (case populate_board option s of
                   (Some e, s') \<Rightarrow> Crashed e s'
                 | (None, s') \<Rightarrow> game_loop keys (draw_board s')))
      else if key = 113 \<or> key = 81
      then Terminated s
      else game_loop keys s)"

text \<open>
  \<open>game_controller\<close> on a terminal of \<open>h\<close> lines and \<open>w\<close> columns: the title, the
  box and the menus are drawn, then the first key is looked up in \<open>OPTIONS\<close> without
  any test.
\<close>

definition game_controller :: "int \<Rightarrow> int \<Rightarrow> int list \<Rightarrow> game \<Rightarrow> session" where
  "game_controller h w keys s =
     (let s1 = set_screen h w s
      in if \<not> menu_fits h w then Crashed CursesError s1
         else case keys of
           [] \<Rightarrow> Awaiting s1
         | key # rest \<Rightarrow>
             (case OPTIONS key of
                None \<Rightarrow> Crashed KeyError s1
              | Some option \<Rightarrow>
                  (case populate_board option s1 of
                     (Some e, s2) \<Rightarrow> Crashed e s2
                   | (None, s2) \<Rightarrow> game_loop rest (draw_board s2))))"

subsection \<open>Notions used to state the properties\<close>

text \<open>
  After every \<open>populate_board\<close> that returns, and after every \<open>update_board\<close> that
  follows, the board is a rectangular array whose shape is \<open>(ROWS, COLS)\<close>.
\<close>

definition shape_inv :: "game \<Rightarrow> bool" where
  "shape_inv s \<longleftrightarrow>
     wf_array (board s) \<and> ROWS s = int (nrows (board s)) \<and> COLS s = int (ncols (board s))"

text \<open>The cell that the loops of \<open>count_alive_neighbours\<close> read for a coordinate pair.\<close>

definition wrapped_cell :: "game \<Rightarrow> int \<Rightarrow> int \<Rightarrow> int" where
  "wrapped_cell s x y = cells (board s) ! nat (x mod ROWS s) ! nat (y mod COLS s)"

text \<open>
  The nine cells of the wrapped block, added without wrap-around; the two loops
  accumulate this sum modulo \<open>2 ^ 64\<close>.
\<close>

definition block_sum :: "game \<Rightarrow> int \<Rightarrow> int \<Rightarrow> int" where
  "block_sum s r c =
     wrapped_cell s (r - 1) (c - 1) + wrapped_cell s (r - 1) c + wrapped_cell s (r - 1) (c + 1)
   + wrapped_cell s r (c - 1) + wrapped_cell s r c + wrapped_cell s r (c + 1)
   + wrapped_cell s (r + 1) (c - 1) + wrapped_cell s (r + 1) c + wrapped_cell s (r + 1) (c + 1)"

text \<open>
  The eight coordinate pairs around \<open>(r, c)\<close>, the centre left out, and what it means
  for the wrapped cell at a pair to be alive. On a board with fewer than three rows or
  columns several pairs wrap onto the same cell, and the cell is counted once for each.
\<close>

definition neighbourhood :: "int \<Rightarrow> int \<Rightarrow> (int \<times> int) list" where
  "neighbourhood r c =
     [(r - 1, c - 1), (r - 1, c), (r - 1, c + 1),
      (r, c - 1), (r, c + 1),
      (r + 1, c - 1), (r + 1, c), (r + 1, c + 1)]"

definition alive_at :: "game \<Rightarrow> int \<times> int \<Rightarrow> bool" where
  "alive_at s p \<longleftrightarrow> wrapped_cell s (fst p) (snd p) = 1"

text \<open>The cell that \<open>update_board\<close> leaves at \<open>(r, c)\<close>, and one pass of its loop body.\<close>

definition next_cell :: "game \<Rightarrow> nat \<Rightarrow> nat \<Rightarrow> int" where
  "next_cell s r c =
     (let v = cells (board s) ! r ! c; n = int64 (block_sum s (int r) (int c) - v)
      in if v = 1 \<and> 2 \<le> n \<and> n \<le> 3 \<or> v = 0 \<and> n = 3 then 1 else 0)"

definition stamp :: "game \<Rightarrow> ndarray \<Rightarrow> nat \<times> nat \<Rightarrow> ndarray" where
  "stamp s nb rc = (case rc of (r, c) \<Rightarrow> if next_cell s r c = 1 then np_set nb r c 1 else nb)"

text \<open>
  A pattern laid over zeros from the top-left corner, and numpy's broadcasting test for
  a pattern of \<open>pr\<close> rows and \<open>pc\<close> columns stored into the slice of a board of
  \<open>r\<close> rows and \<open>c\<close> columns: the slice is clipped to the board, so an extent
  fits when it is at most the board's, and an extent of 1 is always accepted.
\<close>

definition top_left_overlay :: "nat \<Rightarrow> nat \<Rightarrow> pattern \<Rightarrow> ndarray" where
  "top_left_overlay r c p =
     \<lparr>nrows = r, ncols = c,
      cells = map (\<lambda>i. map (\<lambda>j. if i < length p \<and> j < length (p ! i) then p ! i ! j else 0)
                           [0..<c]) [0..<r]\<rparr>"

definition broadcasts :: "nat \<Rightarrow> nat \<Rightarrow> nat \<Rightarrow> nat \<Rightarrow> bool" where
  "broadcasts pr pc r c \<longleftrightarrow> (pr \<le> r \<or> pr = 1) \<and> (pc \<le> c \<or> pc = 1)"

subsection \<open>Concrete sessions\<close>

definition game_with_board :: "ndarray \<Rightarrow> game" where
  "game_with_board b =
     (init NoFile False (\<lambda>_. False))\<lparr>ROWS := int (nrows b), COLS := int (ncols b), board := b\<rparr>"

definition blinker_game :: game where
  "blinker_game = game_with_board
     \<lparr>nrows = 3, ncols = 4, cells = [[0, 0, 0, 0], [1, 1, 1, 0], [0, 0, 0, 0]]\<rparr>"

definition corner_game :: game where
  "corner_game = game_with_board
     \<lparr>nrows = 3, ncols = 3, cells = [[1, 0, 0], [0, 0, 0], [0, 0, 0]]\<rparr>"

definition corner_game_2x2 :: game where
  "corner_game_2x2 = game_with_board \<lparr>nrows = 2, ncols = 2, cells = [[1, 0], [0, 0]]\<rparr>"

definition glider :: pattern where
  "glider = [[0, 1, 0], [0, 0, 1], [1, 1, 1]]"

definition demo_config :: config where
  "demo_config = [''Block'' \<mapsto> [[1, 1], [1, 1]], ''Glider'' \<mapsto> glider]"

text \<open>A fresh object on a terminal of \<open>h\<close> lines and \<open>w\<close> columns, after \<open>set_screen\<close>.\<close>

definition terminal_game :: "int \<Rightarrow> int \<Rightarrow> game" where
  "terminal_game h w = set_screen h w (init (Json demo_config) True (\<lambda>_. False))"

definition ones_4x4 :: ndarray where
  "ones_4x4 = \<lparr>nrows = 4, ncols = 4, cells = replicate 4 (replicate 4 1)\<rparr>"

definition saved_game :: game where
  "saved_game = (game_with_board \<lparr>nrows = 2, ncols = 3, cells = [[0, 1, 0], [1, 1, 0]]\<rparr>)
     \<lparr>CONFIG := demo_config, config_file := Json demo_config, file_writable := True\<rparr>"

section \<open>Properties\<close>

subsection \<open>Arithmetic of 64 bits\<close>

lemma int64_id: "in_int64 v \<Longrightarrow> int64 v = v"
  by (simp add: int64_def in_int64_def)

lemma int64_add_left [simp]: "int64 (int64 a + b) = int64 (a + b)"
  by (simp add: int64_def mod_simps ac_simps)

lemma int64_diff_left [simp]: "int64 (int64 a - b) = int64 (a - b)"
  using int64_add_left [of a "- b"] by simp

lemma binary_in_int64: "v = 0 \<or> v = 1 \<Longrightarrow> in_int64 v"
  by (auto simp: in_int64_def)

lemma int64_small: "0 \<le> v \<Longrightarrow> v \<le> 9 \<Longrightarrow> int64 v = v"
  by (rule int64_id) (simp add: in_int64_def)

lemma int64_zero_one [simp]: "int64 0 = 0" "int64 1 = 1"
  by (simp_all add: int64_def)

subsection \<open>Arrays\<close>

lemma np_index_mod:
  "0 < n \<Longrightarrow> np_index n (x mod int n) = Inr (nat (x mod int n))"
  by (simp add: np_index_def)

lemma np_index_wrapped:
  assumes "0 < n" "- 1 \<le> i" "i < int n"
  shows "np_index n i = Inr (nat (i mod int n))"
proof (cases "0 \<le> i")
  case True
  with assms show ?thesis by (simp add: np_index_def)
next
  case False
  with assms have "i = - 1" by simp
  moreover have "(- 1) mod int n = int n - 1"
    using assms(1) by (simp add: zmod_minus1)
  ultimately show ?thesis
    using assms(1) by (simp add: np_index_def)
qed

lemma np_index_error: "np_index n i = Inl e \<Longrightarrow> e = IndexError"
  by (simp add: np_index_def split: if_splits)

lemma np_index_at_length: "np_index n (int n) = Inl IndexError"
  by (simp add: np_index_def)

lemma np_get_in_range:
  "r < nrows a \<Longrightarrow> c < ncols a \<Longrightarrow> np_get a (int r) (int c) = Inr (cells a ! r ! c)"
  by (simp add: np_get_def np_index_def)

lemma np_set_shape [simp]:
  "nrows (np_set a r c v) = nrows a" "ncols (np_set a r c v) = ncols a"
  by (simp_all add: np_set_def)

lemma np_set_wf: "wf_array a \<Longrightarrow> wf_array (np_set a r c v)"
proof -
  assume wf: "wf_array a"
  have "length ((cells a)[r := (cells a ! r)[c := v]] ! n) = ncols a"
    if "n < nrows a" for n
    using wf that by (cases "n = r") (simp_all add: wf_array_def list_all_length)
  with wf show ?thesis
    by (simp add: wf_array_def np_set_def list_all_length)
qed

lemma np_set_cell:
  assumes "wf_array a" "i < nrows a" "j < ncols a"
  shows "cells (np_set a r c v) ! i ! j = (if i = r \<and> j = c then v else cells a ! i ! j)"
  using assms
  by (cases "i = r") (simp_all add: wf_array_def np_set_def list_all_length nth_list_update)

lemma zeros_wf [simp]: "wf_array (zeros_of_shape r c)"
  by (simp add: wf_array_def zeros_of_shape_def list_all_length)

lemma zeros_shape [simp]:
  "nrows (zeros_of_shape r c) = r" "ncols (zeros_of_shape r c) = c"
  by (simp_all add: zeros_of_shape_def)

lemma zeros_cell: "i < r \<Longrightarrow> j < c \<Longrightarrow> cells (zeros_of_shape r c) ! i ! j = 0"
  by (simp add: zeros_of_shape_def)

lemma ndarray_eqI:
  fixes a b :: ndarray
  assumes "wf_array a" "wf_array b" "nrows a = nrows b" "ncols a = ncols b"
    and "\<And>i j. i < nrows a \<Longrightarrow> j < ncols a \<Longrightarrow> cells a ! i ! j = cells b ! i ! j"
  shows "a = b"
proof -
  have "cells a = cells b"
  proof (rule nth_equalityI)
    show "length (cells a) = length (cells b)"
      using assms(1-3) by (simp add: wf_array_def)
  next
    fix i assume i: "i < length (cells a)"
    then have ia: "i < nrows a" and ib: "i < nrows b"
      using assms(1-3) by (simp_all add: wf_array_def)
    have la: "length (cells a ! i) = ncols a" and lb: "length (cells b ! i) = ncols b"
      using assms(1,2) ia ib by (simp_all add: wf_array_def list_all_length)
    show "cells a ! i = cells b ! i"
      by (rule nth_equalityI) (use la lb assms(4) assms(5) [OF ia] in simp_all)
  qed
  with assms(3,4) show ?thesis
    by simp
qed

subsection \<open>The neighbour count in closed form\<close>

lemma py_range3: "py_range (c - 1) (c + 2) = [c - 1, c, c + 1]"
proof -
  have "[c - 1..c + 1] = (c - 1) # [c..c + 1]"
    using upto_rec1 [of "c - 1" "c + 1"] by simp
  moreover have "[c..c + 1] = c # [c + 1..c + 1]"
    using upto_rec1 [of c "c + 1"] by simp
  moreover have "[c + 1..c + 1] = [c + 1]"
    by (rule upto_single)
  moreover have "c + 2 - 1 = c + 1"
    by simp
  ultimately show ?thesis
    unfolding py_range_def by presburger
qed

lemma inner_body_ok:
  assumes "ROWS s = int (nrows (board s))" "COLS s = int (ncols (board s))"
    and "0 < nrows (board s)" "0 < ncols (board s)"
  shows "inner_body s y0 (x, a) = Inr (x mod ROWS s, int64 (a + wrapped_cell s x y0))"
  using assms
  by (simp add: inner_body_def wrap_def np_get_def np_index_mod wrapped_cell_def)

lemma wrapped_cell_mod [simp]:
  "wrapped_cell s (x mod ROWS s) y = wrapped_cell s x y"
  by (simp add: wrapped_cell_def)

lemma outer_body_ok:
  assumes "ROWS s = int (nrows (board s))" "COLS s = int (ncols (board s))"
    and "0 < nrows (board s)" "0 < ncols (board s)"
  shows "outer_body s c x0 a =
     Inr (int64 (a + wrapped_cell s x0 (c - 1) + wrapped_cell s x0 c + wrapped_cell s x0 (c + 1)))"
  by (simp add: outer_body_def py_range3 inner_body_ok [OF assms])

lemma count_closed:
  assumes "ROWS s = int (nrows (board s))" "COLS s = int (ncols (board s))"
    and "0 < nrows (board s)" "0 < ncols (board s)"
  shows "count_alive_neighbours s r c =
     (case np_get (board s) r c of
        Inl e \<Rightarrow> Inl e
      | Inr v \<Rightarrow> Inr (int64 (block_sum s r c - v)))"
  by (simp add: count_alive_neighbours_def py_range3 outer_body_ok [OF assms] block_sum_def
      add.assoc split: sum.splits)

lemma count_in_range:
  assumes "ROWS s = int (nrows (board s))" "COLS s = int (ncols (board s))"
    and "r < nrows (board s)" "c < ncols (board s)"
  shows "count_alive_neighbours s (int r) (int c) =
           Inr (int64 (block_sum s (int r) (int c) - cells (board s) ! r ! c))"
proof -
  from assms have pos: "0 < nrows (board s)" "0 < ncols (board s)"
    by auto
  show ?thesis
    by (simp add: count_closed [OF assms(1,2) pos] np_get_in_range [OF assms(3,4)])
qed

lemma wrapped_cell_in_range:
  assumes "ROWS s = int (nrows (board s))" "COLS s = int (ncols (board s))"
    and "r < nrows (board s)" "c < ncols (board s)"
  shows "wrapped_cell s (int r) (int c) = cells (board s) ! r ! c"
  using assms by (simp add: wrapped_cell_def)

lemma wrapped_cell_binary:
  assumes "shape_inv s" "binary_array (board s)" "0 < nrows (board s)" "0 < ncols (board s)"
  shows "wrapped_cell s x y = 0 \<or> wrapped_cell s x y = 1"
proof -
  let ?i = "nat (x mod ROWS s)" and ?j = "nat (y mod COLS s)"
  from assms have i: "?i < length (cells (board s))"
    by (simp add: shape_inv_def wf_array_def nat_less_iff)
  from assms have "length (cells (board s) ! ?i) = ncols (board s)"
    using i by (simp add: shape_inv_def wf_array_def list_all_length)
  with assms have j: "?j < length (cells (board s) ! ?i)"
    by (simp add: shape_inv_def nat_less_iff)
  from assms(2) i j show ?thesis
    by (simp add: binary_array_def binary_rows_def list_all_length wrapped_cell_def)
qed

lemma length_filter_indicator:
  "int (length (filter P xs)) = sum_list (map (\<lambda>x. if P x then 1 else 0) xs)"
  by (induction xs) simp_all

lemma alive_indicator:
  assumes "shape_inv s" "binary_array (board s)" "0 < nrows (board s)" "0 < ncols (board s)"
  shows "(if alive_at s p then 1 else 0) = wrapped_cell s (fst p) (snd p)"
  using wrapped_cell_binary [OF assms, of "fst p" "snd p"] by (auto simp: alive_at_def)

lemma block_sum_mod:
  "block_sum s (r mod ROWS s) (c mod COLS s) = block_sum s r c"
  by (simp add: block_sum_def wrapped_cell_def mod_add_left_eq mod_diff_left_eq)

lemma neg2_mod:
  assumes "3 \<le> (n::int)"
  shows "- 2 mod n = n - 2"
proof -
  have "(- 2 + n) mod n = - 2 + n"
    using assms by (intro mod_pos_pos_trivial) simp_all
  then show ?thesis
    by simp
qed

lemma block_sum_zeros:
  assumes "shape_inv s" "board s = zeros_of_shape r c" "0 < r" "0 < c"
  shows "wrapped_cell s x y = 0"
proof -
  from assms have "nat (x mod ROWS s) < r" "nat (y mod COLS s) < c"
    by (simp_all add: shape_inv_def nat_less_iff)
  then show ?thesis
    by (simp add: wrapped_cell_def assms(2) zeros_cell)
qed

subsection \<open>The loop of update\_board\<close>

lemma update_body_in_range:
  assumes "ROWS s = int (nrows (board s))" "COLS s = int (ncols (board s))"
    and "r < nrows (board s)" "c < ncols (board s)"
  shows "update_body s (r, c) nb = Inr (stamp s nb (r, c))"
  by (simp add: update_body_def count_in_range [OF assms] np_get_in_range [OF assms(3,4)]
      stamp_def next_cell_def Let_def)

lemma update_loop:
  assumes "ROWS s = int (nrows (board s))" "COLS s = int (ncols (board s))"
    and "\<forall>rc \<in> set idxs. fst rc < nrows (board s) \<and> snd rc < ncols (board s)"
  shows "for_each (update_body s) idxs nb = Inr (foldl (stamp s) nb idxs)"
  using assms(3)
proof (induction idxs arbitrary: nb)
  case Nil
  show ?case by simp
next
  case (Cons rc idxs)
  obtain r c where rc: "rc = (r, c)" by (cases rc)
  with Cons.prems have "r < nrows (board s)" "c < ncols (board s)"
    by auto
  then have "update_body s rc nb = Inr (stamp s nb rc)"
    unfolding rc by (rule update_body_in_range [OF assms(1,2)])
  moreover from Cons.prems
  have "for_each (update_body s) idxs (stamp s nb rc) = Inr (foldl (stamp s) (stamp s nb rc) idxs)"
    by (intro Cons.IH) simp
  ultimately show ?case by simp
qed

lemma stamp_shape [simp]:
  "nrows (stamp s nb rc) = nrows nb" "ncols (stamp s nb rc) = ncols nb"
  by (simp_all add: stamp_def split: prod.splits)

lemma stamp_wf: "wf_array nb \<Longrightarrow> wf_array (stamp s nb rc)"
  by (simp add: stamp_def np_set_wf split: prod.splits)

lemma stamp_cell:
  assumes "wf_array nb" "i < nrows nb" "j < ncols nb"
  shows "cells (stamp s nb rc) ! i ! j =
           (if rc = (i, j) \<and> next_cell s i j = 1 then 1 else cells nb ! i ! j)"
  using assms by (auto simp: stamp_def np_set_cell split: prod.splits)

lemma foldl_stamp_shape [simp]:
  "nrows (foldl (stamp s) nb idxs) = nrows nb" "ncols (foldl (stamp s) nb idxs) = ncols nb"
  by (induction idxs arbitrary: nb) simp_all

lemma foldl_stamp_wf: "wf_array nb \<Longrightarrow> wf_array (foldl (stamp s) nb idxs)"
  by (induction idxs arbitrary: nb) (simp_all add: stamp_wf)

lemma foldl_stamp_cell:
  assumes "wf_array nb" "i < nrows nb" "j < ncols nb"
  shows "cells (foldl (stamp s) nb idxs) ! i ! j =
           (if (i, j) \<in> set idxs \<and> next_cell s i j = 1 then 1 else cells nb ! i ! j)"
  using assms
proof (induction idxs arbitrary: nb)
  case Nil
  show ?case by simp
next
  case (Cons rc idxs)
  have "cells (foldl (stamp s) (stamp s nb rc) idxs) ! i ! j =
          (if (i, j) \<in> set idxs \<and> next_cell s i j = 1 then 1
           else cells (stamp s nb rc) ! i ! j)"
    using Cons.prems by (intro Cons.IH) (simp_all add: stamp_wf)
  then show ?case
    using Cons.prems by (auto simp: stamp_cell)
qed

lemma next_cell_binary: "next_cell s r c = 0 \<or> next_cell s r c = 1"
  by (simp add: next_cell_def Let_def)

lemma update_board_closed:
  assumes "ROWS s = int (nrows (board s))" "COLS s = int (ncols (board s))"
  shows "update_board s =
     (None, s\<lparr>board := foldl (stamp s) (zeros_of_shape (nrows (board s)) (ncols (board s)))
                         (ndindex (nrows (board s)) (ncols (board s)))\<rparr>)"
proof -
  have "\<forall>rc \<in> set (ndindex (nrows (board s)) (ncols (board s))).
          fst rc < nrows (board s) \<and> snd rc < ncols (board s)"
    by (auto simp: ndindex_def)
  from update_loop [OF assms this] show ?thesis
    by (simp add: update_board_def)
qed

lemma update_board_cell:
  assumes "ROWS s = int (nrows (board s))" "COLS s = int (ncols (board s))"
    and "r < nrows (board s)" "c < ncols (board s)"
  shows "cells (board (snd (update_board s))) ! r ! c = next_cell s r c"
proof -
  have "(r, c) \<in> set (ndindex (nrows (board s)) (ncols (board s)))"
    using assms(3,4) by (simp add: ndindex_def)
  then show ?thesis
    using assms(3,4) next_cell_binary [of s r c]
    by (auto simp: update_board_closed [OF assms(1,2)] foldl_stamp_cell zeros_cell)
qed

subsection \<open>Storing a pattern\<close>

lemma assign_slice_zeros:
  assumes "p = row0 # rest" "list_all (\<lambda>row. length row = pc) p" "int64_rows p"
  shows "np_assign_slice (zeros_of_shape r c) (length p) (length row0) p =
           (if broadcasts (length p) pc r c then Inr (top_left_overlay r c p)
            else Inl ValueError)"
proof -
  from assms(1,2) have pc: "length row0 = pc"
    by simp
  have rows: "length (p ! i) = pc" if "i < length p" for i
    using assms(2) that by (simp add: list_all_length)
  have len: "length p = Suc (length rest)"
    using assms(1) by simp
  have vc: "(case p of [] \<Rightarrow> 0 | row0 # _ \<Rightarrow> length row0) = pc"
    using assms(1,2) by simp
  have tr: "length p = min (length p) r \<longleftrightarrow> length p \<le> r"
    and tc: "pc = min pc c \<longleftrightarrow> pc \<le> c"
    by auto
  show ?thesis
  proof (cases "broadcasts (length p) pc r c")
    case False
    then show ?thesis
      using assms(2,3)
      by (simp add: np_assign_slice_def Let_def pc vc tr tc broadcasts_def)
  next
    case True
    with assms(2,3) show ?thesis
      by (auto simp: np_assign_slice_def Let_def pc vc tr tc broadcasts_def
          top_left_overlay_def zeros_of_shape_def rows map_replicate_const)
  qed
qed

lemma populate_board_restart:
  assumes "config_file s = Json cfg" "np_zeros (ROWS s) (COLS s) = Inr z"
  shows "populate_board option s = populate_board option (s\<lparr>CONFIG := cfg, board := z\<rparr>)"
  using assms by (simp add: populate_board_def load_config_def)

lemma populate_board_frame:
  assumes "option \<noteq> ''Random''"
  shows "config_file (snd (populate_board option s)) = config_file s"
    and "ROWS (snd (populate_board option s)) = ROWS s"
    and "COLS (snd (populate_board option s)) = COLS s"
  using assms
  by (simp_all add: populate_board_def load_config_def Let_def
      split: config_store.splits option.splits sum.splits list.splits)

lemma populate_board_reset:
  assumes "option \<noteq> ''Random''" "config_file s = Json cfg"
    and "np_zeros (ROWS s) (COLS s) = Inr z"
  shows "(snd (populate_board option s))\<lparr>CONFIG := cfg, board := z\<rparr> =
           s\<lparr>CONFIG := cfg, board := z\<rparr>"
  using assms
  by (simp add: populate_board_def load_config_def Let_def
      split: config_store.splits option.splits sum.splits list.splits)

subsection \<open>Cells are zeros and ones\<close>

lemma binary_np_set:
  assumes "binary_array a" "v = 0 \<or> v = 1"
  shows "binary_array (np_set a r c v)"
proof -
  have "list_all (\<lambda>v. v = 0 \<or> v = 1) ((cells a)[r := (cells a ! r)[c := v]] ! i)"
    if i: "i < length (cells a)" for i
  proof (cases "i = r")
    case True
    have "list_all (\<lambda>v. v = 0 \<or> v = 1) (cells a ! r)"
      using assms(1) i True by (simp add: binary_array_def binary_rows_def list_all_length)
    then have "list_all (\<lambda>v. v = 0 \<or> v = 1) ((cells a ! r)[c := v])"
      using assms(2) set_update_subset_insert [of "cells a ! r" c v]
      by (auto simp: list_all_iff)
    with i True show ?thesis
      by simp
  next
    case False
    with assms(1) i show ?thesis
      by (simp add: binary_array_def binary_rows_def list_all_length)
  qed
  then show ?thesis
    by (simp add: binary_array_def binary_rows_def np_set_def list_all_length)
qed

lemma binary_update_body:
  assumes "update_body s rc nb = Inr nb'" "binary_array nb"
  shows "binary_array nb'"
  using assms
  by (auto simp: update_body_def binary_np_set split: prod.splits sum.splits if_splits)

lemma binary_update_loop:
  assumes "for_each (update_body s) idxs nb = Inr nb'" "binary_array nb"
  shows "binary_array nb'"
  using assms
proof (induction idxs arbitrary: nb)
  case Nil
  then show ?case by simp
next
  case (Cons rc idxs)
  then show ?case
    by (auto split: sum.splits dest: binary_update_body)
qed

lemma binary_zeros: "binary_array (zeros_of_shape r c)"
  by (simp add: binary_array_def binary_rows_def zeros_of_shape_def list_all_length)

lemma binary_randint: "binary_array (fst (np_randint bits r c))"
  by (simp add: binary_array_def binary_rows_def np_randint_def list_all_length)

lemma assign_slice_all:
  assumes "np_assign_slice (zeros_of_shape r c) m n v = Inr b"
    and "list_all (list_all P) v" "P 0"
  shows "list_all (list_all P) (cells b)"
proof -
  define vr where "vr = length v"
  define vc where "vc = (case v of [] \<Rightarrow> 0 | row0 # _ \<Rightarrow> length row0)"
  define tr where "tr = min m r"
  define tc where "tc = min n c"
  from assms(1) have rect: "list_all (\<lambda>row. length row = vc) v"
    and fit: "(vr = tr \<or> vr = 1) \<and> (vc = tc \<or> vc = 1)"
    and b: "cells b = map (\<lambda>i. if i < tr
                          then map (\<lambda>j. if j < tc
                                         then v ! (if vr = 1 then 0 else i)
                                                ! (if vc = 1 then 0 else j)
                                         else cells (zeros_of_shape r c) ! i ! j) [0..<c]
                          else cells (zeros_of_shape r c) ! i) [0..<r]"
    by (auto simp: np_assign_slice_def Let_def vr_def vc_def tr_def tc_def split: if_splits)
  have v: "P (v ! i ! j)" if "i < vr" "j < vc" for i j
  proof -
    from that rect have "j < length (v ! i)"
      by (simp add: list_all_length vr_def)
    with assms(2) that(1) show ?thesis
      by (simp add: list_all_length vr_def)
  qed
  have "P (cells b ! i ! j)" if ij: "i < r" "j < c" for i j
  proof (cases "i < tr \<and> j < tc")
    case True
    with fit have "(if vr = 1 then 0 else i) < vr" "(if vc = 1 then 0 else j) < vc"
      by auto
    from v [OF this] have "P (v ! (if vr = 1 then 0 else i) ! (if vc = 1 then 0 else j))" .
    moreover have "cells b ! i ! j = v ! (if vr = 1 then 0 else i) ! (if vc = 1 then 0 else j)"
      using True ij by (simp add: b)
    ultimately show ?thesis
      by (simp only:)
  next
    case False
    with ij assms(3) show ?thesis
      by (auto simp: b zeros_cell)
  qed
  moreover have "length (cells b) = r" "\<And>i. i < r \<Longrightarrow> length (cells b ! i) = c"
    by (auto simp: b zeros_of_shape_def)
  ultimately show ?thesis
    by (simp add: list_all_length)
qed

lemma binary_assign_slice:
  assumes "np_assign_slice (zeros_of_shape r c) m n v = Inr b" "binary_rows v"
  shows "binary_array b"
  using assign_slice_all [OF assms(1), of "\<lambda>v. v = 0 \<or> v = 1"] assms(2)
  by (simp add: binary_array_def binary_rows_def)

lemma binary_update_board:
  assumes "update_board s = (None, s')"
  shows "binary_array (board s')"
  using assms
  by (auto simp: update_board_def split: sum.splits
      dest: binary_update_loop [OF _ binary_zeros])

subsection \<open>Cells are in the range of 64 bits\<close>

lemma binary_imp_int64: "binary_array a \<Longrightarrow> int64_array a"
  by (auto simp: binary_array_def binary_rows_def int64_array_def int64_rows_def list_all_length
      intro: binary_in_int64)

lemma int64_assign_slice:
  assumes "np_assign_slice (zeros_of_shape r c) m n v = Inr b"
  shows "int64_array b"
proof -
  from assms have "int64_rows v"
    by (auto simp: np_assign_slice_def Let_def split: if_splits)
  with assign_slice_all [OF assms, of in_int64] show ?thesis
    by (simp add: int64_array_def int64_rows_def in_int64_def)
qed

lemma populate_board_establishes_int64:
  assumes "populate_board option s = (None, s')"
  shows "int64_array (board s')"
proof (cases "option = ''Random''")
  case True
  with assms binary_randint [of "entropy s" "nat (ROWS s)" "nat (COLS s)"] show ?thesis
    by (auto simp: populate_board_def load_config_def Let_def
        split: config_store.splits sum.splits prod.splits intro: binary_imp_int64)
next
  case False
  with assms show ?thesis
    by (auto simp: populate_board_def load_config_def Let_def np_zeros_def
        split: config_store.splits option.splits sum.splits list.splits if_splits
        dest: int64_assign_slice)
qed

lemma update_board_establishes_int64:
  assumes "update_board s = (None, s')"
  shows "int64_array (board s')"
  using binary_update_board [OF assms] by (rule binary_imp_int64)

subsection \<open>The shape of the board is kept\<close>

lemma assign_slice_shape:
  assumes "np_assign_slice a m n v = Inr b" "wf_array a"
  shows "wf_array b \<and> nrows b = nrows a \<and> ncols b = ncols a"
proof -
  from assms(1) obtain f where b: "b = a\<lparr>cells := map (\<lambda>i. if i < min m (nrows a)
      then map (f i) [0..<ncols a] else cells a ! i) [0..<nrows a]\<rparr>"
    by (auto simp: np_assign_slice_def Let_def split: if_splits)
  have "length (cells a ! i) = ncols a" if "i < nrows a" for i
    using assms(2) that by (simp add: wf_array_def list_all_length)
  then show ?thesis
    by (simp add: b wf_array_def list_all_length)
qed

lemma randint_shape:
  "wf_array (fst (np_randint bits r c))"
  "nrows (fst (np_randint bits r c)) = r" "ncols (fst (np_randint bits r c)) = c"
  by (simp_all add: np_randint_def wf_array_def list_all_length)

lemma populate_board_establishes_shape:
  assumes "populate_board option s = (None, s')"
  shows "shape_inv s'"
proof -
  from assms obtain cfg where cfg: "config_file s = Json cfg"
    by (auto simp: populate_board_def load_config_def split: config_store.splits option.splits)
  from assms cfg have dims: "0 \<le> ROWS s" "0 \<le> COLS s"
    by (auto simp: populate_board_def load_config_def np_zeros_def split: if_splits)
  let ?z = "zeros_of_shape (nat (ROWS s)) (nat (COLS s))"
  show ?thesis
  proof (cases "option = ''Random''")
    case True
    with assms cfg dims
    have "s' = s\<lparr>CONFIG := cfg,
                  board := fst (np_randint (entropy s) (nat (ROWS s)) (nat (COLS s))),
                  entropy := snd (np_randint (entropy s) (nat (ROWS s)) (nat (COLS s)))\<rparr>"
      by (auto simp: populate_board_def load_config_def np_zeros_def Let_def split: prod.splits)
    with dims show ?thesis
      by (simp add: shape_inv_def randint_shape)
  next
    case False
    with assms cfg dims obtain m n v b where
      "np_assign_slice ?z m n v = Inr b" "s' = s\<lparr>CONFIG := cfg, board := b\<rparr>"
      by (auto simp: populate_board_def load_config_def np_zeros_def Let_def
          split: config_store.splits option.splits list.splits sum.splits)
    with assign_slice_shape [of ?z m n v b] dims show ?thesis
      by (simp add: shape_inv_def)
  qed
qed

lemma update_board_preserves_shape:
  assumes "shape_inv s"
  shows "fst (update_board s) = None \<and> shape_inv (snd (update_board s))"
proof -
  from assms have eqs: "ROWS s = int (nrows (board s))" "COLS s = int (ncols (board s))"
    by (simp_all add: shape_inv_def)
  show ?thesis
    by (simp add: update_board_closed [OF eqs] shape_inv_def eqs foldl_stamp_wf)
qed

subsection \<open>Facts about the concrete sessions\<close>

lemma blinker_game_shape: "shape_inv blinker_game"
  by code_simp

lemma blinker_game_binary: "binary_array (board blinker_game)"
  by code_simp

lemma blinker_game_dims:
  "ROWS blinker_game = 3" "COLS blinker_game = 4"
  "nrows (board blinker_game) = 3" "ncols (board blinker_game) = 4"
  by (simp_all add: blinker_game_def game_with_board_def)

lemma corner_game_shape: "shape_inv corner_game"
  by code_simp

lemma corner_game_dims:
  "ROWS corner_game = 3" "COLS corner_game = 3"
  "nrows (board corner_game) = 3" "ncols (board corner_game) = 3"
  by (simp_all add: corner_game_def game_with_board_def)

lemma terminal_game_fields:
  "config_file (terminal_game h w) = Json demo_config"
  "ROWS (terminal_game h w) = h - 6" "COLS (terminal_game h w) = w - 16"
  by (simp_all add: terminal_game_def set_screen_def init_def TOP_MARGIN_def BOTTOM_MARGIN_def
      LEFT_MARGIN_def RIGHT_MARGIN_def)

lemma saved_game_shape: "shape_inv saved_game"
  by code_simp

section \<open>The claims\<close>

subsection \<open>C1: the transition rule\<close>

text \<open>
  Claim C1. On a board of shape \<open>(ROWS, COLS)\<close>, \<open>update_board\<close> returns without
  error and replaces the board by an array \<open>b\<close> of the same shape in which every cell
  \<open>(r, c)\<close> is decided by \<open>n = count_alive_neighbours(r, c)\<close> evaluated on the board
  as it was before the call: the cell is 1 exactly when the old cell is 1 and
  \<open>2 \<le> n \<le> 3\<close>, or the old cell is 0 and \<open>n = 3\<close>; in every other case it is 0.
  Nothing else of the session changes.
\<close>

theorem update_board_rule:
  assumes "shape_inv s"
  shows "\<exists>b. update_board s = (None, s\<lparr>board := b\<rparr>)
           \<and> wf_array b \<and> nrows b = nrows (board s) \<and> ncols b = ncols (board s)
           \<and> (\<forall>r < nrows (board s). \<forall>c < ncols (board s).
                \<exists>n. count_alive_neighbours s (int r) (int c) = Inr n
                  \<and> cells b ! r ! c =
                      (if cells (board s) ! r ! c = 1 \<and> 2 \<le> n \<and> n \<le> 3
                          \<or> cells (board s) ! r ! c = 0 \<and> n = 3
                       then 1 else 0))"
proof -
  from assms have eqs: "ROWS s = int (nrows (board s))" "COLS s = int (ncols (board s))"
    by (simp_all add: shape_inv_def)
  let ?b = "foldl (stamp s) (zeros_of_shape (nrows (board s)) (ncols (board s)))
              (ndindex (nrows (board s)) (ncols (board s)))"
  have upd: "update_board s = (None, s\<lparr>board := ?b\<rparr>)"
    by (rule update_board_closed [OF eqs])
  have cell: "\<exists>n. count_alive_neighbours s (int r) (int c) = Inr n
                  \<and> cells ?b ! r ! c =
                      (if cells (board s) ! r ! c = 1 \<and> 2 \<le> n \<and> n \<le> 3
                          \<or> cells (board s) ! r ! c = 0 \<and> n = 3
                       then 1 else 0)"
    if "r < nrows (board s)" "c < ncols (board s)" for r c
  proof -
    have "cells ?b ! r ! c = next_cell s r c"
      using update_board_cell [OF eqs that] by (simp add: upd)
    then show ?thesis
      by (simp add: count_in_range [OF eqs that] next_cell_def Let_def)
  qed
  have "wf_array ?b" "nrows ?b = nrows (board s)" "ncols ?b = ncols (board s)"
    by (simp_all add: foldl_stamp_wf)
  with upd cell show ?thesis
    by blast
qed

theorem update_board_rule_witness:
  "shape_inv blinker_game
   \<and> (0::nat) < nrows (board blinker_game) \<and> (1::nat) < ncols (board blinker_game)
   \<and> fst (update_board blinker_game) = None
   \<and> count_alive_neighbours blinker_game (int 0) (int 1) = Inr 3
   \<and> cells (board blinker_game) ! 0 ! 1 = 0
   \<and> cells (board (snd (update_board blinker_game))) ! 0 ! 1 = 1"
proof -
  have r: "(0::nat) < nrows (board blinker_game)" and c: "(1::nat) < ncols (board blinker_game)"
    by (simp_all add: blinker_game_dims)
  have n: "count_alive_neighbours blinker_game (int 0) (int 1) = Inr 3"
    by code_simp
  have old: "cells (board blinker_game) ! 0 ! 1 = 0"
    by code_simp
  from update_board_rule [OF blinker_game_shape] obtain b where
    upd: "update_board blinker_game = (None, blinker_game\<lparr>board := b\<rparr>)"
    and rule: "\<forall>r < nrows (board blinker_game). \<forall>c < ncols (board blinker_game).
                \<exists>n. count_alive_neighbours blinker_game (int r) (int c) = Inr n
                  \<and> cells b ! r ! c =
                      (if cells (board blinker_game) ! r ! c = 1 \<and> 2 \<le> n \<and> n \<le> 3
                          \<or> cells (board blinker_game) ! r ! c = 0 \<and> n = 3
                       then 1 else 0)"
    by blast
  from rule r c obtain m where
    "count_alive_neighbours blinker_game (int 0) (int 1) = Inr m"
    "cells b ! 0 ! 1 =
       (if cells (board blinker_game) ! 0 ! 1 = 1 \<and> 2 \<le> m \<and> m \<le> 3
           \<or> cells (board blinker_game) ! 0 ! 1 = 0 \<and> m = 3
        then 1 else 0)"
    by blast
  with n old have "cells b ! 0 ! 1 = 1"
    by simp
  with upd blinker_game_shape r c n old show ?thesis
    by simp
qed

subsection \<open>C2: a pattern larger than the board\<close>

text \<open>
  The claim as written says that a pattern larger than the board is truncated without
  error. A glider of three rows and columns, stored on a board of two rows and two
  columns (the dimensions that \<open>set_screen\<close> derives from 8 lines and 18 columns),
  raises ValueError.
\<close>

theorem populate_board_larger_pattern_raises:
  "fst (populate_board ''Glider'' (terminal_game 8 18)) = Some ValueError"
  by code_simp

text \<open>
  Claim C2, amended. For a rectangular pattern of \<open>pr \<ge> 1\<close> rows and \<open>pc\<close> columns
  of numbers in the range of 64 bits (a pattern of zeros and ones is one), found in the
  file under \<open>option\<close>, on a board of \<open>r\<close> rows and \<open>c\<close> columns:
  when each extent of the pattern is at most the board's (or is 1), \<open>populate_board\<close>
  returns without error and the board is the pattern laid over zeros from the top-left
  corner; otherwise, so whenever the pattern has at least two rows and more rows than
  the board, or at least two columns and more columns than the board, nothing is
  truncated: it raises ValueError and leaves the board all zeros. In neither case is a
  cell outside the board written.
\<close>

theorem populate_board_fits_or_raises:
  assumes "config_file s = Json cfg" "cfg option = Some p" "option \<noteq> ''Random''"
    and "p \<noteq> []" "list_all (\<lambda>row. length row = pc) p" "int64_rows p"
    and "ROWS s = int r" "COLS s = int c"
  shows "populate_board option s =
           (if broadcasts (length p) pc r c
            then (None, s\<lparr>CONFIG := cfg, board := top_left_overlay r c p\<rparr>)
            else (Some ValueError, s\<lparr>CONFIG := cfg, board := zeros_of_shape r c\<rparr>))"
proof -
  from assms(4) obtain row0 rest where p: "p = row0 # rest"
    by (cases p) auto
  note slice = assign_slice_zeros [OF p assms(5,6), of r c]
  show ?thesis
    using assms(1,2,3,7,8) slice
    by (simp add: populate_board_def load_config_def np_zeros_def p)
qed

theorem populate_board_fits_or_raises_witness:
  "config_file (terminal_game 10 20) = Json demo_config
   \<and> demo_config ''Glider'' = Some glider
   \<and> ''Glider'' \<noteq> ''Random''
   \<and> glider \<noteq> []
   \<and> list_all (\<lambda>row. length row = 3) glider
   \<and> int64_rows glider
   \<and> ROWS (terminal_game 10 20) = int 4
   \<and> COLS (terminal_game 10 20) = int 4
   \<and> broadcasts (length glider) 3 4 4
   \<and> populate_board ''Glider'' (terminal_game 10 20) =
       (None, (terminal_game 10 20)\<lparr>CONFIG := demo_config,
                 board := top_left_overlay 4 4 glider\<rparr>)"
proof -
  have h1: "config_file (terminal_game 10 20) = Json demo_config"
    by (simp add: terminal_game_fields)
  have h2: "demo_config ''Glider'' = Some glider"
    by (simp add: demo_config_def)
  have h3: "''Glider'' \<noteq> ''Random''"
    by simp
  have h4: "glider \<noteq> []"
    by (simp add: glider_def)
  have h5: "list_all (\<lambda>row. length row = 3) glider"
    by (simp add: glider_def)
  have h6: "int64_rows glider"
    by code_simp
  have h7: "ROWS (terminal_game 10 20) = int 4"
    by (simp add: terminal_game_fields)
  have h8: "COLS (terminal_game 10 20) = int 4"
    by (simp add: terminal_game_fields)
  have fits: "broadcasts (length glider) 3 4 4"
    by (simp add: broadcasts_def glider_def)
  from populate_board_fits_or_raises [OF h1 h2 h3 h4 h5 h6 h7 h8] fits
  have "populate_board ''Glider'' (terminal_game 10 20) =
       (None, (terminal_game 10 20)\<lparr>CONFIG := demo_config,
                 board := top_left_overlay 4 4 glider\<rparr>)"
    by simp
  with h1 h2 h3 h4 h5 h6 h7 h8 fits show ?thesis
    by blast
qed

subsection \<open>C3: coordinates one step out of range\<close>

text \<open>
  The claim as written says that a row equal to the number of rows is accepted. On a
  board of three rows, row 3 raises IndexError: the loops wrap the neighbours, but the
  final read \<open>self.board[r, c]\<close> of the centre uses the coordinates as they are.
\<close>

theorem count_alive_neighbours_row_at_dimension_raises:
  "count_alive_neighbours blinker_game 3 0 = Inl IndexError"
  by code_simp

text \<open>
  Claim C3, amended. On a board of shape \<open>(ROWS, COLS)\<close> with at least one row and one
  column, \<open>count_alive_neighbours\<close> accepts every row from \<open>-1\<close> to \<open>ROWS - 1\<close> and
  every column from \<open>-1\<close> to \<open>COLS - 1\<close> without error (numpy reads index \<open>-1\<close> as
  the last), and the result is the neighbour count of the wrapped cell
  \<open>(r mod ROWS, c mod COLS)\<close>: the sum of the nine cells of the wrapped block less the
  centre, in the arithmetic of 64 bits. A row equal to \<open>ROWS\<close>, or a column equal to
  \<open>COLS\<close>, raises IndexError.
\<close>

theorem count_alive_neighbours_out_of_range:
  assumes "shape_inv s" "0 < nrows (board s)" "0 < ncols (board s)"
  shows "(- 1 \<le> r \<and> r < ROWS s \<and> - 1 \<le> c \<and> c < COLS s \<longrightarrow>
            count_alive_neighbours s r c =
              Inr (int64 (block_sum s r c - wrapped_cell s r c))
          \<and> count_alive_neighbours s r c =
              count_alive_neighbours s (r mod ROWS s) (c mod COLS s))
       \<and> count_alive_neighbours s (ROWS s) c = Inl IndexError
       \<and> count_alive_neighbours s r (COLS s) = Inl IndexError"
proof -
  from assms(1) have eqs: "ROWS s = int (nrows (board s))" "COLS s = int (ncols (board s))"
    by (simp_all add: shape_inv_def)
  note closed = count_closed [OF eqs assms(2,3)]
  have get: "np_get (board s) r c = Inr (wrapped_cell s r c)"
    if "- 1 \<le> r" "r < ROWS s" "- 1 \<le> c" "c < COLS s" for r c
    using that assms(2,3)
    by (simp add: np_get_def np_index_wrapped eqs wrapped_cell_def)
  have low: "count_alive_neighbours s r c = Inr (int64 (block_sum s r c - wrapped_cell s r c))
      \<and> count_alive_neighbours s r c = count_alive_neighbours s (r mod ROWS s) (c mod COLS s)"
    if range: "- 1 \<le> r" "r < ROWS s" "- 1 \<le> c" "c < COLS s"
  proof -
    have "0 \<le> r mod ROWS s" "0 \<le> c mod COLS s"
      using assms(2,3) by (simp_all add: eqs)
    then have lo: "- 1 \<le> r mod ROWS s" "- 1 \<le> c mod COLS s"
      by linarith+
    have hi: "r mod ROWS s < ROWS s" "c mod COLS s < COLS s"
      using assms(2,3) by (simp_all add: eqs)
    from get [OF lo(1) hi(1) lo(2) hi(2)] get [OF range] show ?thesis
      by (simp add: closed block_sum_mod wrapped_cell_def)
  qed
  have "np_get (board s) (ROWS s) c = Inl IndexError"
    by (simp add: np_get_def eqs np_index_at_length)
  then have high_row: "count_alive_neighbours s (ROWS s) c = Inl IndexError"
    by (simp add: closed)
  have "np_get (board s) r (COLS s) = Inl IndexError"
    by (auto simp: np_get_def eqs np_index_at_length split: sum.splits dest: np_index_error)
  then have high_col: "count_alive_neighbours s r (COLS s) = Inl IndexError"
    by (simp add: closed)
  from low high_row high_col show ?thesis
    by blast
qed

theorem count_alive_neighbours_out_of_range_witness:
  "shape_inv blinker_game \<and> 0 < nrows (board blinker_game) \<and> 0 < ncols (board blinker_game)
   \<and> (- 1::int) \<le> - 1 \<and> - 1 < ROWS blinker_game \<and> - 1 < COLS blinker_game
   \<and> count_alive_neighbours blinker_game (- 1) (- 1) =
       count_alive_neighbours blinker_game (- 1 mod ROWS blinker_game) (- 1 mod COLS blinker_game)
   \<and> count_alive_neighbours blinker_game (ROWS blinker_game) 0 = Inl IndexError
   \<and> count_alive_neighbours blinker_game 0 (COLS blinker_game) = Inl IndexError"
proof -
  have pos: "0 < nrows (board blinker_game)" "0 < ncols (board blinker_game)"
    by (simp_all add: blinker_game_dims)
  have range: "(- 1::int) \<le> - 1" "- 1 < ROWS blinker_game" "- 1 < COLS blinker_game"
    by (simp_all add: blinker_game_dims)
  from count_alive_neighbours_out_of_range [OF blinker_game_shape pos, of "- 1" "- 1"] range
  have "count_alive_neighbours blinker_game (- 1) (- 1) =
       count_alive_neighbours blinker_game (- 1 mod ROWS blinker_game) (- 1 mod COLS blinker_game)"
    by blast
  moreover from count_alive_neighbours_out_of_range [OF blinker_game_shape pos, of 0 0]
  have "count_alive_neighbours blinker_game (ROWS blinker_game) 0 = Inl IndexError"
    "count_alive_neighbours blinker_game 0 (COLS blinker_game) = Inl IndexError"
    by blast+
  ultimately show ?thesis
    using blinker_game_shape pos range by blast
qed

subsection \<open>C4: the first key\<close>

text \<open>
  Inside \<open>game_loop\<close> a key that is no command falls through every branch: the loop
  reads the next key and the session is unchanged.
\<close>

lemma game_loop_ignores_unrecognised:
  assumes "key \<notin> {343, 10, 13, 115, 83, 114, 113, 81}" "key < 48 \<or> 57 < key"
  shows "game_loop (key # keys) s = game_loop keys s"
proof -
  have "key \<notin> set digit_keys"
    using assms(2) by (auto simp: digit_keys_def)
  with assms(1) show ?thesis
    by (simp add: KEY_ENTER_def)
qed

text \<open>
  Claim C4. The claim includes the first key, read by \<open>game_controller\<close> before the
  board is seeded. There the key is looked up in \<open>OPTIONS\<close> without a test: on a
  terminal of 24 lines and 80 columns with a readable file, the first key \<open>x\<close> (code
  120) ends the session with KeyError, where \<open>game_loop\<close> would have ignored it.
\<close>

theorem first_key_unrecognised_crashes:
  "game_controller 24 80 [120] (init (Json demo_config) True (\<lambda>_. False)) =
     Crashed KeyError (set_screen 24 80 (init (Json demo_config) True (\<lambda>_. False)))"
  by (simp add: game_controller_def menu_fits_def OPTIONS_def)

subsection \<open>C5: what the count is\<close>

text \<open>
  Claim C5. On a board of zeros and ones of shape \<open>(ROWS, COLS)\<close>, for every cell
  \<open>(r, c)\<close> of the board, \<open>count_alive_neighbours\<close> returns the number of the eight
  coordinate pairs around \<open>(r, c)\<close> whose wrapped cell is alive, the centre left out,
  and this number is between 0 and 8.
\<close>

theorem count_alive_neighbours_counts:
  assumes "shape_inv s" "binary_array (board s)"
    and "r < nrows (board s)" "c < ncols (board s)"
  shows "\<exists>n. count_alive_neighbours s (int r) (int c) = Inr n
           \<and> n = int (length (filter (alive_at s) (neighbourhood (int r) (int c))))
           \<and> 0 \<le> n \<and> n \<le> 8"
proof -
  from assms(1) have eqs: "ROWS s = int (nrows (board s))" "COLS s = int (ncols (board s))"
    by (simp_all add: shape_inv_def)
  from assms(3,4) have pos: "0 < nrows (board s)" "0 < ncols (board s)"
    by auto
  have "int (length (filter (alive_at s) (neighbourhood (int r) (int c)))) =
          sum_list (map (\<lambda>p. wrapped_cell s (fst p) (snd p)) (neighbourhood (int r) (int c)))"
    by (simp only: length_filter_indicator alive_indicator [OF assms(1,2) pos])
  also have "\<dots> = block_sum s (int r) (int c) - cells (board s) ! r ! c"
    by (simp add: neighbourhood_def block_sum_def wrapped_cell_in_range [OF eqs assms(3,4)])
  finally have sum: "block_sum s (int r) (int c) - cells (board s) ! r ! c =
           int (length (filter (alive_at s) (neighbourhood (int r) (int c))))"
    by simp
  have "length (filter (alive_at s) (neighbourhood (int r) (int c)))
                   \<le> length (neighbourhood (int r) (int c))"
    by (rule length_filter_le)
  then have le: "length (filter (alive_at s) (neighbourhood (int r) (int c))) \<le> 8"
    by (simp add: neighbourhood_def)
  then have "int64 (int (length (filter (alive_at s) (neighbourhood (int r) (int c))))) =
           int (length (filter (alive_at s) (neighbourhood (int r) (int c))))"
    by (intro int64_small) simp_all
  then have "count_alive_neighbours s (int r) (int c) =
           Inr (int (length (filter (alive_at s) (neighbourhood (int r) (int c)))))"
    by (simp add: count_in_range [OF eqs assms(3,4)] sum)
  with le show ?thesis
    by simp
qed

theorem count_alive_neighbours_counts_witness:
  "shape_inv blinker_game \<and> binary_array (board blinker_game)
   \<and> (0::nat) < nrows (board blinker_game) \<and> (1::nat) < ncols (board blinker_game)
   \<and> count_alive_neighbours blinker_game (int 0) (int 1) = Inr 3
   \<and> int (length (filter (alive_at blinker_game) (neighbourhood (int 0) (int 1)))) = 3"
proof -
  have r: "(0::nat) < nrows (board blinker_game)" and c: "(1::nat) < ncols (board blinker_game)"
    by (simp_all add: blinker_game_dims)
  have n: "count_alive_neighbours blinker_game (int 0) (int 1) = Inr 3"
    by code_simp
  from count_alive_neighbours_counts [OF blinker_game_shape blinker_game_binary r c] n
  have "int (length (filter (alive_at blinker_game) (neighbourhood (int 0) (int 1)))) = 3"
    by simp
  with blinker_game_shape blinker_game_binary r c n show ?thesis
    by blast
qed

subsection \<open>C6: a single cell in the corner\<close>

text \<open>
  The claim as written is for a board of any size. On a board of two rows and two
  columns the block around \<open>(1, 1)\<close> wraps onto \<open>(0, 0)\<close> four times, and the count
  there is 4.
\<close>

theorem single_cell_small_board_counts_four:
  "count_alive_neighbours corner_game_2x2 (2 - 1) (2 - 1) = Inr 4"
  by code_simp

text \<open>
  Claim C6, amended. On a board of \<open>R \<ge> 3\<close> rows and \<open>C \<ge> 3\<close> columns whose only
  alive cell is \<open>(0, 0)\<close>, \<open>count_alive_neighbours\<close> is 1 at \<open>(R - 1, C - 1)\<close>, at
  \<open>(R - 1, 0)\<close> and at \<open>(0, C - 1)\<close>.
\<close>

theorem single_cell_wraps:
  assumes "shape_inv s" "3 \<le> nrows (board s)" "3 \<le> ncols (board s)"
    and "\<forall>i < nrows (board s). \<forall>j < ncols (board s).
           cells (board s) ! i ! j = (if i = 0 \<and> j = 0 then 1 else 0)"
  shows "count_alive_neighbours s (ROWS s - 1) (COLS s - 1) = Inr 1
       \<and> count_alive_neighbours s (ROWS s - 1) 0 = Inr 1
       \<and> count_alive_neighbours s 0 (COLS s - 1) = Inr 1"
proof -
  from assms(1) have eqs: "ROWS s = int (nrows (board s))" "COLS s = int (ncols (board s))"
    by (simp_all add: shape_inv_def)
  from assms(2,3) have pos: "0 < nrows (board s)" "0 < ncols (board s)"
    by auto
  have big: "3 \<le> ROWS s" "3 \<le> COLS s"
    using assms(2,3) by (simp_all add: eqs)
  have w: "wrapped_cell s x y = (if x mod ROWS s = 0 \<and> y mod COLS s = 0 then 1 else 0)" for x y
  proof -
    have "nat (x mod ROWS s) < nrows (board s)" "nat (y mod COLS s) < ncols (board s)"
      using pos by (simp_all add: eqs nat_less_iff)
    with assms(4) show ?thesis
      using pos by (simp add: wrapped_cell_def eqs nat_eq_iff)
  qed
  have m: "- 2 mod ROWS s = ROWS s - 2" "- 1 mod ROWS s = ROWS s - 1"
          "- 2 mod COLS s = COLS s - 2" "- 1 mod COLS s = COLS s - 1"
    using big by (simp_all add: zmod_minus1 neg2_mod)
  have range: "- 1 \<le> ROWS s - 1" "ROWS s - 1 < ROWS s" "- 1 \<le> COLS s - 1" "COLS s - 1 < COLS s"
    "- 1 \<le> (0::int)" "0 < ROWS s" "0 < COLS s"
    using big by simp_all
  note c = count_closed [OF eqs pos]
  have g: "np_get (board s) r c = Inr (wrapped_cell s r c)"
    if "- 1 \<le> r" "r < ROWS s" "- 1 \<le> c" "c < COLS s" for r c
    using that pos by (simp add: np_get_def np_index_wrapped eqs wrapped_cell_def)
  have "count_alive_neighbours s (ROWS s - 1) (COLS s - 1) = Inr 1"
    using big by (simp add: c g range block_sum_def w m)
  moreover have "count_alive_neighbours s (ROWS s - 1) 0 = Inr 1"
    using big by (simp add: c g range block_sum_def w m)
  moreover have "count_alive_neighbours s 0 (COLS s - 1) = Inr 1"
    using big by (simp add: c g range block_sum_def w m)
  ultimately show ?thesis by simp
qed

theorem single_cell_wraps_witness:
  "shape_inv corner_game \<and> 3 \<le> nrows (board corner_game) \<and> 3 \<le> ncols (board corner_game)
   \<and> cells (board corner_game) = [[1, 0, 0], [0, 0, 0], [0, 0, 0]]
   \<and> count_alive_neighbours corner_game (ROWS corner_game - 1) (COLS corner_game - 1) = Inr 1
   \<and> count_alive_neighbours corner_game (ROWS corner_game - 1) 0 = Inr 1
   \<and> count_alive_neighbours corner_game 0 (COLS corner_game - 1) = Inr 1"
proof -
  have big: "3 \<le> nrows (board corner_game)" "3 \<le> ncols (board corner_game)"
    by (simp_all add: corner_game_dims)
  have only: "\<forall>i < nrows (board corner_game). \<forall>j < ncols (board corner_game).
         cells (board corner_game) ! i ! j = (if i = 0 \<and> j = 0 then 1 else 0)"
    by (auto simp: corner_game_def game_with_board_def less_Suc_eq numeral_3_eq_3)
  have rows: "cells (board corner_game) = [[1, 0, 0], [0, 0, 0], [0, 0, 0]]"
    by (simp add: corner_game_def game_with_board_def)
  from single_cell_wraps [OF corner_game_shape big only] corner_game_shape big rows
  show ?thesis
    by blast
qed

subsection \<open>C7: save and restore\<close>

text \<open>
  Claim C7. Let \<open>s\<close> be a session whose board has shape \<open>(ROWS, COLS)\<close>, with a
  writable file. \<open>save_config\<close> returns without error. Let \<open>s'\<close> be any later state of
  the session in which the file is as the save left it and the dimensions are the same;
  its board, its \<open>CONFIG\<close> and everything else may have changed in between.
  \<open>populate_board\<close> with \<open>Saved\<close> in \<open>s'\<close> leaves exactly the board that was saved
  in \<open>s\<close>. When the board has at least one row the restore returns without error. (A
  board without rows is saved as the empty list, and the restore raises IndexError at
  \<open>CONFIG[option][0]\<close>, after it has put the empty board back.)
\<close>

theorem save_then_restore:
  assumes "shape_inv s" "int64_array (board s)" "file_writable s"
    and "config_file s' = config_file (snd (save_config s))"
    and "ROWS s' = ROWS s" "COLS s' = COLS s"
  shows "fst (save_config s) = None
       \<and> board (snd (populate_board ''Saved'' s')) = board s
       \<and> (0 < nrows (board s) \<longrightarrow> fst (populate_board ''Saved'' s') = None)"
proof -
  from assms(1) have eqs: "ROWS s = int (nrows (board s))" "COLS s = int (ncols (board s))"
    and wf: "wf_array (board s)"
    by (simp_all add: shape_inv_def)
  define cfg where "cfg = (CONFIG s)(''Saved'' \<mapsto> cells (board s))"
  have saved: "save_config s = (None, s\<lparr>CONFIG := cfg, config_file := Json cfg\<rparr>)"
    using assms(3) by (simp add: save_config_def cfg_def Let_def)
  have s': "config_file s' = Json cfg" "cfg ''Saved'' = Some (cells (board s))"
    "ROWS s' = int (nrows (board s))" "COLS s' = int (ncols (board s))"
    using assms(4,5,6) by (simp_all add: saved cfg_def eqs)
  have rect: "list_all (\<lambda>row. length row = ncols (board s)) (cells (board s))"
    using wf by (simp add: wf_array_def)
  have len: "length (cells (board s)) = nrows (board s)"
    using wf by (simp add: wf_array_def)
  have range: "int64_rows (cells (board s))"
    using assms(2) by (simp add: int64_array_def)
  show ?thesis
  proof (cases "cells (board s)")
    case Nil
    with len have zero: "nrows (board s) = 0"
      by simp
    have "populate_board ''Saved'' s' =
            (Some IndexError, s'\<lparr>CONFIG := cfg, board := zeros_of_shape 0 (ncols (board s))\<rparr>)"
      using s' Nil zero by (simp add: populate_board_def load_config_def np_zeros_def)
    moreover have "zeros_of_shape 0 (ncols (board s)) = board s"
      using Nil zero by (cases "board s") (simp add: zeros_of_shape_def)
    ultimately show ?thesis
      using zero by (simp add: saved)
  next
    case (Cons row0 rest)
    have fits: "broadcasts (length (cells (board s))) (ncols (board s))
            (nrows (board s)) (ncols (board s))"
      by (simp add: broadcasts_def len)
    from assign_slice_zeros [OF Cons rect range, of "nrows (board s)" "ncols (board s)"] fits
    have slice: "np_assign_slice (zeros_of_shape (nrows (board s)) (ncols (board s)))
        (length (cells (board s))) (length row0) (cells (board s)) =
        Inr (top_left_overlay (nrows (board s)) (ncols (board s)) (cells (board s)))"
      by simp
    have pop: "populate_board ''Saved'' s' =
      (None, s'\<lparr>CONFIG := cfg,
                 board := top_left_overlay (nrows (board s)) (ncols (board s)) (cells (board s))\<rparr>)"
      using s' slice
      by (simp add: populate_board_def load_config_def np_zeros_def Cons)
    have "top_left_overlay (nrows (board s)) (ncols (board s)) (cells (board s)) = board s"
    proof (rule ndarray_eqI)
      show "wf_array (top_left_overlay (nrows (board s)) (ncols (board s)) (cells (board s)))"
        by (simp add: wf_array_def top_left_overlay_def list_all_length)
    next
      fix i j
      assume "i < nrows (top_left_overlay (nrows (board s)) (ncols (board s)) (cells (board s)))"
        and "j < ncols (top_left_overlay (nrows (board s)) (ncols (board s)) (cells (board s)))"
      then show "cells (top_left_overlay (nrows (board s)) (ncols (board s)) (cells (board s))) ! i ! j
                   = cells (board s) ! i ! j"
        using wf by (simp add: top_left_overlay_def wf_array_def list_all_length)
    qed (simp_all add: wf top_left_overlay_def)
    with pop show ?thesis
      by (simp add: saved)
  qed
qed

text \<open>
  A session that saves a board of two rows and three columns, seeds the Block over it,
  and then restores: the restore finds a board that differs from the saved one and puts
  the saved one back.
\<close>

theorem save_then_restore_witness:
  "shape_inv saved_game \<and> int64_array (board saved_game) \<and> file_writable saved_game
   \<and> config_file (snd (populate_board ''Block'' (snd (save_config saved_game)))) =
       config_file (snd (save_config saved_game))
   \<and> ROWS (snd (populate_board ''Block'' (snd (save_config saved_game)))) = ROWS saved_game
   \<and> COLS (snd (populate_board ''Block'' (snd (save_config saved_game)))) = COLS saved_game
   \<and> 0 < nrows (board saved_game)
   \<and> cells (board saved_game) = [[0, 1, 0], [1, 1, 0]]
   \<and> cells (board (snd (populate_board ''Block'' (snd (save_config saved_game))))) =
       [[1, 1, 0], [1, 1, 0]]
   \<and> fst (save_config saved_game) = None
   \<and> board (snd (populate_board ''Saved''
        (snd (populate_board ''Block'' (snd (save_config saved_game)))))) = board saved_game
   \<and> fst (populate_board ''Saved''
        (snd (populate_board ''Block'' (snd (save_config saved_game))))) = None"
proof -
  let ?s' = "snd (populate_board ''Block'' (snd (save_config saved_game)))"
  have r: "int64_array (board saved_game)"
    by code_simp
  have w: "file_writable saved_game"
    by (simp add: saved_game_def)
  have block: "''Block'' \<noteq> ''Random''"
    by simp
  have f: "config_file ?s' = config_file (snd (save_config saved_game))"
    by (rule populate_board_frame(1) [OF block])
  have dims: "ROWS ?s' = ROWS saved_game" "COLS ?s' = COLS saved_game"
    by (simp_all add: populate_board_frame [OF block] save_config_def Let_def)
  have pos: "0 < nrows (board saved_game)"
    by (simp add: saved_game_def game_with_board_def)
  have before: "cells (board saved_game) = [[0, 1, 0], [1, 1, 0]]"
    by (simp add: saved_game_def game_with_board_def)
  have between: "cells (board ?s') = [[1, 1, 0], [1, 1, 0]]"
    by code_simp
  from save_then_restore [OF saved_game_shape r w f dims]
    saved_game_shape r w f dims pos before between
  show ?thesis
    by blast
qed

subsection \<open>C8: seeding twice\<close>

text \<open>
  Claim C8. For every option other than \<open>Random\<close>:
  calling \<open>populate_board\<close> a second time gives the same outcome as the first call
  gave, the same session and the same error if there was one;
  when the file can be read and the dimensions are not negative, the outcome does not
  depend on the board the session had before, so no cell of the prior contents
  remains;
  and when the call returns without error, the board is the stored pattern laid from
  the top-left corner over a board that is 0 everywhere else: every cell outside the
  pattern is Dead, whatever it was before.
\<close>

theorem populate_board_twice:
  assumes "option \<noteq> ''Random''"
  shows "populate_board option (snd (populate_board option s)) = populate_board option s
       \<and> (config_file s = Json cfg \<and> 0 \<le> ROWS s \<and> 0 \<le> COLS s \<longrightarrow>
            populate_board option (s\<lparr>board := b\<rparr>) = populate_board option s)
       \<and> (populate_board option s = (None, s') \<and> config_file s = Json cfg
            \<and> cfg option = Some p \<longrightarrow>
            board s' = top_left_overlay (nat (ROWS s)) (nat (COLS s)) p)"
proof (intro conjI impI)
  show "populate_board option (snd (populate_board option s)) = populate_board option s"
  proof (cases "config_file s")
    case NoFile
    then show ?thesis
      by (simp add: populate_board_def load_config_def)
  next
    case BadJson
    then show ?thesis
      by (simp add: populate_board_def load_config_def)
  next
    case (Json cfg)
    show ?thesis
    proof (cases "np_zeros (ROWS s) (COLS s)")
      case (Inl e)
      with Json show ?thesis
        by (simp add: populate_board_def load_config_def)
    next
      case (Inr z)
      let ?s' = "snd (populate_board option s)"
      have "config_file ?s' = Json cfg" "np_zeros (ROWS ?s') (COLS ?s') = Inr z"
        using Json Inr by (simp_all add: populate_board_frame [OF assms])
      then have "populate_board option ?s' =
                   populate_board option (?s'\<lparr>CONFIG := cfg, board := z\<rparr>)"
        by (rule populate_board_restart)
      also have "\<dots> = populate_board option (s\<lparr>CONFIG := cfg, board := z\<rparr>)"
        by (simp only: populate_board_reset [OF assms Json Inr])
      also have "\<dots> = populate_board option s"
        by (rule populate_board_restart [OF Json Inr, symmetric])
      finally show ?thesis .
    qed
  qed
next
  assume "config_file s = Json cfg \<and> 0 \<le> ROWS s \<and> 0 \<le> COLS s"
  then show "populate_board option (s\<lparr>board := b\<rparr>) = populate_board option s"
    by (simp add: populate_board_def load_config_def np_zeros_def)
next
  assume a: "populate_board option s = (None, s') \<and> config_file s = Json cfg
               \<and> cfg option = Some p"
  then have dims: "0 \<le> ROWS s" "0 \<le> COLS s"
    by (auto simp: populate_board_def load_config_def np_zeros_def split: if_splits)
  let ?z = "zeros_of_shape (nat (ROWS s)) (nat (COLS s))"
  from a assms dims obtain row0 rest b where
    p: "p = row0 # rest"
    and slice: "np_assign_slice ?z (length p) (length row0) p = Inr b"
    and b: "board s' = b"
    by (auto simp: populate_board_def load_config_def np_zeros_def Let_def
        split: list.splits sum.splits)
  from slice have rect: "list_all (\<lambda>row. length row = length row0) p"
    and range: "int64_rows p"
    by (auto simp: np_assign_slice_def Let_def p split: if_splits)
  from assign_slice_zeros [OF p rect range, of "nat (ROWS s)" "nat (COLS s)"] slice
  have "b = top_left_overlay (nat (ROWS s)) (nat (COLS s)) p"
    by (simp split: if_splits)
  with b show "board s' = top_left_overlay (nat (ROWS s)) (nat (COLS s)) p"
    by simp
qed

text \<open>
  On a board of four rows and columns that is all ones, seeding the glider twice
  gives what seeding it once gives, and what seeding it on the board the session had
  before gives: the glider in the corner and zeros elsewhere.
\<close>

theorem populate_board_twice_witness:
  "''Glider'' \<noteq> ''Random''
   \<and> config_file (terminal_game 10 20) = Json demo_config
   \<and> (0::int) \<le> ROWS (terminal_game 10 20) \<and> (0::int) \<le> COLS (terminal_game 10 20)
   \<and> demo_config ''Glider'' = Some glider
   \<and> fst (populate_board ''Glider'' (terminal_game 10 20)) = None
   \<and> populate_board ''Glider'' (snd (populate_board ''Glider'' (terminal_game 10 20))) =
       populate_board ''Glider'' (terminal_game 10 20)
   \<and> populate_board ''Glider'' ((terminal_game 10 20)\<lparr>board := ones_4x4\<rparr>) =
       populate_board ''Glider'' (terminal_game 10 20)
   \<and> cells (board (snd (populate_board ''Glider''
        ((terminal_game 10 20)\<lparr>board := ones_4x4\<rparr>)))) =
       [[0, 1, 0, 0], [0, 0, 1, 0], [1, 1, 1, 0], [0, 0, 0, 0]]"
proof -
  let ?s = "terminal_game 10 20"
  have h: "''Glider'' \<noteq> ''Random''"
    by simp
  have f: "config_file ?s = Json demo_config"
    by (simp add: terminal_game_fields)
  have dims: "(0::int) \<le> ROWS ?s" "(0::int) \<le> COLS ?s"
    by (simp_all add: terminal_game_fields)
  have g: "demo_config ''Glider'' = Some glider"
    by (simp add: demo_config_def)
  have ok: "fst (populate_board ''Glider'' ?s) = None"
    by code_simp
  then have res: "populate_board ''Glider'' ?s = (None, snd (populate_board ''Glider'' ?s))"
    by (simp add: prod_eq_iff)
  have twice: "populate_board ''Glider'' (snd (populate_board ''Glider'' ?s)) =
       populate_board ''Glider'' ?s"
    by (rule populate_board_twice [OF h, THEN conjunct1])
  have "config_file ?s = Json demo_config \<and> 0 \<le> ROWS ?s \<and> 0 \<le> COLS ?s \<longrightarrow>
       populate_board ''Glider'' (?s\<lparr>board := ones_4x4\<rparr>) = populate_board ''Glider'' ?s"
    by (rule populate_board_twice [OF h, THEN conjunct2, THEN conjunct1])
  with f dims have indep: "populate_board ''Glider'' (?s\<lparr>board := ones_4x4\<rparr>) =
       populate_board ''Glider'' ?s"
    by blast
  have "populate_board ''Glider'' ?s = (None, snd (populate_board ''Glider'' ?s))
         \<and> config_file ?s = Json demo_config \<and> demo_config ''Glider'' = Some glider \<longrightarrow>
       board (snd (populate_board ''Glider'' ?s)) =
         top_left_overlay (nat (ROWS ?s)) (nat (COLS ?s)) glider"
    by (rule populate_board_twice [OF h, THEN conjunct2, THEN conjunct2])
  with res f g have "board (snd (populate_board ''Glider'' ?s)) =
      top_left_overlay (nat (ROWS ?s)) (nat (COLS ?s)) glider"
    by blast
  then have "cells (board (snd (populate_board ''Glider'' ?s))) =
       cells (top_left_overlay 4 4 glider)"
    by (simp add: terminal_game_fields)
  moreover have "cells (top_left_overlay 4 4 glider) =
       [[0, 1, 0, 0], [0, 0, 1, 0], [1, 1, 1, 0], [0, 0, 0, 0]]"
    by code_simp
  ultimately have "cells (board (snd (populate_board ''Glider'' ?s))) =
       [[0, 1, 0, 0], [0, 0, 1, 0], [1, 1, 1, 0], [0, 0, 0, 0]]"
    by simp
  with indep have "cells (board (snd (populate_board ''Glider'' (?s\<lparr>board := ones_4x4\<rparr>)))) =
       [[0, 1, 0, 0], [0, 0, 1, 0], [1, 1, 1, 0], [0, 0, 0, 0]]"
    by simp
  with h f dims g ok twice indep show ?thesis
    by blast
qed

subsection \<open>C9: the empty board\<close>

text \<open>
  Claim C9. For every number of rows and of columns, zero included, \<open>update_board\<close> on
  the all-zero board of that shape returns without error and leaves the session as it
  was: the board is again all zeros.
\<close>

theorem dead_board_stays_dead:
  "update_board (s\<lparr>ROWS := int r, COLS := int c, board := zeros_of_shape r c\<rparr>) =
     (None, s\<lparr>ROWS := int r, COLS := int c, board := zeros_of_shape r c\<rparr>)"
proof -
  let ?s = "s\<lparr>ROWS := int r, COLS := int c, board := zeros_of_shape r c\<rparr>"
  let ?b = "foldl (stamp ?s) (zeros_of_shape r c) (ndindex r c)"
  have inv: "shape_inv ?s"
    by (simp add: shape_inv_def)
  have eqs: "ROWS ?s = int (nrows (board ?s))" "COLS ?s = int (ncols (board ?s))"
    by simp_all
  have upd: "update_board ?s = (None, ?s\<lparr>board := ?b\<rparr>)"
    using update_board_closed [OF eqs] by simp
  have "?b = zeros_of_shape r c"
  proof (rule ndarray_eqI)
    show "wf_array ?b"
      by (simp add: foldl_stamp_wf)
  next
    fix i j assume "i < nrows ?b" "j < ncols ?b"
    then have ij: "i < r" "j < c"
      by simp_all
    then have pos: "0 < r" "0 < c"
      by auto
    have "next_cell ?s i j = 0"
      using ij by (simp add: next_cell_def block_sum_def block_sum_zeros [OF inv _ pos] zeros_cell)
    moreover have "cells (board (snd (update_board ?s))) ! i ! j = next_cell ?s i j"
      using ij by (intro update_board_cell [OF eqs]) simp_all
    ultimately show "cells ?b ! i ! j = cells (zeros_of_shape r c) ! i ! j"
      using ij by (simp add: upd zeros_cell)
  qed simp_all
  with upd show ?thesis
    by simp
qed

theorem dead_board_stays_dead_witness:
  "fst (update_board ((terminal_game 10 20)\<lparr>ROWS := int 4, COLS := int 4,
                                             board := zeros_of_shape 4 4\<rparr>)) = None
   \<and> board (snd (update_board ((terminal_game 10 20)\<lparr>ROWS := int 4, COLS := int 4,
                                             board := zeros_of_shape 4 4\<rparr>))) =
       zeros_of_shape 4 4"
  using dead_board_stays_dead [where s = "terminal_game 10 20" and r = 4 and c = 4] by simp

subsection \<open>C10: cells are 0 or 1\<close>

text \<open>
  Claim C10. Whatever the board was, the board that \<open>update_board\<close> installs holds only
  zeros and ones. The board that \<open>populate_board\<close> installs holds only zeros and ones
  provided the pattern stored in the file under the option does (for \<open>Random\<close> no
  pattern is read and nothing is required). \<open>save_config\<close> does not touch the board.
\<close>

theorem cells_stay_binary:
  "(update_board s = (None, s') \<longrightarrow> binary_array (board s'))
 \<and> (populate_board option s = (None, s'') \<longrightarrow>
      (\<forall>cfg p. config_file s = Json cfg \<longrightarrow> cfg option = Some p \<longrightarrow> binary_rows p) \<longrightarrow>
      binary_array (board s''))
 \<and> board (snd (save_config s)) = board s"
proof (intro conjI impI)
  assume "update_board s = (None, s')"
  then show "binary_array (board s')"
    by (auto simp: update_board_def split: sum.splits
        dest: binary_update_loop [OF _ binary_zeros])
next
  assume pop: "populate_board option s = (None, s'')"
    and cfg: "\<forall>cfg p. config_file s = Json cfg \<longrightarrow> cfg option = Some p \<longrightarrow> binary_rows p"
  show "binary_array (board s'')"
  proof (cases "option = ''Random''")
    case True
    with pop binary_randint [of "entropy s" "nat (ROWS s)" "nat (COLS s)"] show ?thesis
      by (auto simp: populate_board_def load_config_def Let_def
          split: config_store.splits option.splits sum.splits prod.splits)
  next
    case False
    with pop cfg show ?thesis
      by (auto simp: populate_board_def load_config_def Let_def np_zeros_def
          split: config_store.splits option.splits sum.splits list.splits if_splits
          dest: binary_assign_slice)
  qed
next
  show "board (snd (save_config s)) = board s"
    by (simp add: save_config_def Let_def)
qed

theorem cells_stay_binary_witness:
  "update_board blinker_game = (None, snd (update_board blinker_game))
   \<and> binary_array (board (snd (update_board blinker_game)))
   \<and> populate_board ''Glider'' (terminal_game 10 20) =
       (None, snd (populate_board ''Glider'' (terminal_game 10 20)))
   \<and> config_file (terminal_game 10 20) = Json demo_config
   \<and> demo_config ''Glider'' = Some glider
   \<and> binary_rows glider
   \<and> binary_array (board (snd (populate_board ''Glider'' (terminal_game 10 20))))"
proof -
  have "fst (update_board blinker_game) = None"
    by code_simp
  then have u: "update_board blinker_game = (None, snd (update_board blinker_game))"
    by (simp add: prod_eq_iff)
  have "fst (populate_board ''Glider'' (terminal_game 10 20)) = None"
    by code_simp
  then have p: "populate_board ''Glider'' (terminal_game 10 20) =
       (None, snd (populate_board ''Glider'' (terminal_game 10 20)))"
    by (simp add: prod_eq_iff)
  have b: "\<forall>cfg p. config_file (terminal_game 10 20) = Json cfg \<longrightarrow> cfg ''Glider'' = Some p \<longrightarrow>
         binary_rows p"
    by (auto simp: terminal_game_fields demo_config_def glider_def binary_rows_def)
  from cells_stay_binary [where s = blinker_game and s' = "snd (update_board blinker_game)"] u
  have "binary_array (board (snd (update_board blinker_game)))"
    by blast
  moreover
  from cells_stay_binary [where s = "terminal_game 10 20" and option = "''Glider''"
      and s'' = "snd (populate_board ''Glider'' (terminal_game 10 20))"] p b
  have "binary_array (board (snd (populate_board ''Glider'' (terminal_game 10 20))))"
    by blast
  moreover have "config_file (terminal_game 10 20) = Json demo_config"
    "demo_config ''Glider'' = Some glider" "binary_rows glider"
    by (simp_all add: terminal_game_fields demo_config_def glider_def binary_rows_def)
  ultimately show ?thesis
    using u p by blast
qed

end
